theory Spec2Isabelle
  imports Complex_Main "HOL-Library.List_Lexorder"
begin

section \<open>Python values\<close>

subsection \<open>Strings\<close>

text \<open>
  A Python \<open>str\<close> is a sequence of Unicode code points, and both \<open>re\<close>'s \<open>\s\<close> and
  \<open>str.strip()\<close> classify code points, not bytes. A string is therefore the list of its
  code points. Python compares strings lexicographically by code point, which is the
  order \<open>List_Lexorder\<close> gives to lists.
\<close>

type_synonym pychar = nat
type_synonym pystr = "pychar list"

text \<open>An ASCII literal of the source, read as its code points.\<close>

abbreviation str :: "string \<Rightarrow> pystr" where
  "str s \<equiv> map of_char s"

definition SPACE :: pychar where
  "SPACE = 32"

definition NEWLINE :: pychar where
  "NEWLINE = 10"

definition SLASH :: pychar where
  "SLASH = 47"

definition QUOTE :: pychar where
  "QUOTE = 34"

text \<open>
  The code points CPython's \<open>Py_UNICODE_ISSPACE\<close> accepts. The same predicate decides
  \<open>\s\<close> in a \<open>str\<close> pattern and what \<open>str.strip()\<close> removes: tab to carriage return, the
  four information separators, the space, NEL, the no-break space, the Ogham space mark,
  U+2000 to U+200A, the line and paragraph separators, the narrow no-break space, the
  medium mathematical space and the ideographic space.
\<close>

definition isspace :: "pychar \<Rightarrow> bool" where
  "isspace c \<longleftrightarrow>
     (9 \<le> c \<and> c \<le> 13) \<or> (28 \<le> c \<and> c \<le> 32) \<or> c = 133 \<or> c = 160 \<or> c = 5760 \<or>
     (8192 \<le> c \<and> c \<le> 8202) \<or> c = 8232 \<or> c = 8233 \<or> c = 8239 \<or> c = 8287 \<or> c = 12288"

text \<open>\<open>s.endswith(suffix)\<close>.\<close>

definition endswith :: "pystr \<Rightarrow> pystr \<Rightarrow> bool" where
  "endswith s suffix \<longleftrightarrow>
     length suffix \<le> length s \<and> drop (length s - length suffix) s = suffix"

text \<open>
  \<open>sep.join(parts)\<close>: the parts in order with \<open>sep\<close> between each two neighbours,
  built from the left; no part gives the empty string.
\<close>

definition join :: "pystr \<Rightarrow> pystr list \<Rightarrow> pystr" where
  "join sep parts =
     (case parts of [] \<Rightarrow> [] | p # ps \<Rightarrow> foldl (\<lambda>acc q. acc @ sep @ q) p ps)"

text \<open>
  \<open>os.path.join(a, b)\<close> and \<open>os.path.basename(p)\<close> of \<open>posixpath\<close>: an absolute second
  component replaces the first, a separator is added unless the first component is empty
  or already ends with one; the base name is what follows the last separator.
\<close>

definition os_path_join :: "pystr \<Rightarrow> pystr \<Rightarrow> pystr" where
  "os_path_join a b =
     (if b \<noteq> [] \<and> hd b = SLASH then b
      else if a = [] \<or> last a = SLASH then a @ b
      else a @ [SLASH] @ b)"

definition os_path_basename :: "pystr \<Rightarrow> pystr" where
  "os_path_basename p = rev (takeWhile (\<lambda>c. c \<noteq> SLASH) (rev p))"

subsection \<open>Floats\<close>

text \<open>
  A relevance score is a Python float. The code only compares scores, and on floats that
  are numbers the comparison is the comparison of the reals they denote; an infinity is
  beyond every number, and every comparison with NaN is false.
\<close>

datatype pyfloat = Finite real | PosInf | NegInf | NaN

fun float_lt :: "pyfloat \<Rightarrow> pyfloat \<Rightarrow> bool" where
  "float_lt NaN _ = False"
| "float_lt _ NaN = False"
| "float_lt (Finite a) (Finite b) = (a < b)"
| "float_lt (Finite _) PosInf = True"
| "float_lt (Finite _) NegInf = False"
| "float_lt PosInf _ = False"
| "float_lt NegInf NegInf = False"
| "float_lt NegInf _ = True"

subsection \<open>Exceptions\<close>

text \<open>
  The repository catches no exception, so one raised by a library call ends the
  operation that made the call. The exceptions are values; an operation that can raise
  returns \<open>error + 'a\<close> with the exception on the left.
\<close>

datatype error =
    FileNotFoundError pystr
  | NotADirectoryError pystr
  | FileExistsError pystr
  | LoadError pystr
  | IndexBuildError
  | IndexLoadError pystr
  | SearchError
  | ModelError

section \<open>Documents and the libraries around them\<close>

text \<open>
  A LangChain \<open>Document\<close>: its text and a metadata dictionary. The loaders write the
  keys \<open>source\<close> and \<open>page\<close>, and the repository reads both with \<open>dict.get\<close>, so either
  may be absent.
\<close>

record metadata =
  source :: "pystr option"
  page :: "int option"

record document =
  page_content :: pystr
  metadata :: metadata

text \<open>An Indexed Entry: an embedding vector with the chunk it was computed from.\<close>

type_synonym 'v indexed_entry = "'v \<times> document"

text \<open>
  The vector index, as far as the repository looks into it: the entries of its docstore
  in insertion order (a Python dict keeps that order, and every entry gets a fresh key).
\<close>

type_synonym 'v FAISS = "'v indexed_entry list"

datatype loader = PyPDFLoader | Docx2txtLoader

text \<open>
  The collaborators the repository calls and does not implement: the embedding model, the
  text splitter configured with \<open>chunk_size\<close> and \<open>chunk_overlap\<close>, a document loader
  applied to a file path, the similarity search of the index and the language model.
  They are parameters of the model; the ones that can raise return a sum.
\<close>

record 'v services =
  embed_text :: "pystr \<Rightarrow> 'v"
  split_text :: "int \<Rightarrow> int \<Rightarrow> pystr \<Rightarrow> pystr list"
  loader_load :: "loader \<Rightarrow> pystr \<Rightarrow> error + document list"
  similarity_search_with_relevance_scores ::
    "'v FAISS \<Rightarrow> pystr \<Rightarrow> int \<Rightarrow> error + (document \<times> pyfloat) list"
  llm_invoke :: "pystr \<Rightarrow> error + pystr"

subsection \<open>The file system\<close>

text \<open>
  What the repository asks of the file system: whether a path exists, the names in a
  directory, and the index persisted at a path. \<open>save_local\<close> writes the two files
  \<open>index.faiss\<close> and \<open>index.pkl\<close> into a directory of its own.
\<close>

datatype 'v node = Folder "pystr list" | SavedIndex "'v FAISS" | RegularFile

type_synonym 'v filesystem = "pystr \<Rightarrow> 'v node option"

definition os_path_exists :: "'v filesystem \<Rightarrow> pystr \<Rightarrow> bool" where
  "os_path_exists fs path \<longleftrightarrow> fs path \<noteq> None"

definition os_listdir :: "'v filesystem \<Rightarrow> pystr \<Rightarrow> error + pystr list" where
  "os_listdir fs path =
     (case fs path of
        None \<Rightarrow> Inl (FileNotFoundError path)
      | Some (Folder names) \<Rightarrow> Inr names
      | Some (SavedIndex _) \<Rightarrow> Inr [str ''index.faiss'', str ''index.pkl'']
      | Some RegularFile \<Rightarrow> Inl (NotADirectoryError path))"

text \<open>\<open>os.makedirs(path, exist_ok=True)\<close> and \<open>os.makedirs(path)\<close>.\<close>

definition os_makedirs :: "'v filesystem \<Rightarrow> pystr \<Rightarrow> bool \<Rightarrow> error + 'v filesystem" where
  "os_makedirs fs path exist_ok =
     (case fs path of
        None \<Rightarrow> Inr (fs(path \<mapsto> Folder []))
      | Some RegularFile \<Rightarrow> Inl (FileExistsError path)
      | Some _ \<Rightarrow> (if exist_ok then Inr fs else Inl (FileExistsError path)))"

definition shutil_rmtree :: "'v filesystem \<Rightarrow> pystr \<Rightarrow> error + 'v filesystem" where
  "shutil_rmtree fs path =
     (case fs path of
        None \<Rightarrow> Inl (FileNotFoundError path)
      | Some RegularFile \<Rightarrow> Inl (NotADirectoryError path)
      | Some _ \<Rightarrow> Inr (fs(path := None)))"

subsection \<open>The vector index\<close>

text \<open>
  The FAISS vector store of LangChain is a library and not part of the repository's
  sources; its operations follow the contract section 4.4 of the specification gives.
\<close>

text \<open>
  Modelled from the spec: what becomes of one chunk when it is embedded and inserted, an
  Indexed Entry of its embedding vector and the chunk.
\<close>

definition index_entry :: "'v services \<Rightarrow> document \<Rightarrow> 'v indexed_entry" where
  "index_entry sv c = (embed_text sv (page_content c), c)"

text \<open>
  Modelled from the spec: \<open>build\<close> (\<open>FAISS.from_documents\<close>) embeds all chunks into a
  fresh index and fails on no chunks.
\<close>

definition FAISS_from_documents :: "'v services \<Rightarrow> document list \<Rightarrow> error + 'v FAISS" where
  "FAISS_from_documents sv chunks =
     (if chunks = [] then Inl IndexBuildError else Inr (map (index_entry sv) chunks))"

text \<open>
  Modelled from the spec: \<open>add\<close> (\<open>db.add_documents\<close>) embeds the new chunks and inserts
  them into the existing index; it does not deduplicate.
\<close>

definition add_documents :: "'v services \<Rightarrow> 'v FAISS \<Rightarrow> document list \<Rightarrow> 'v FAISS" where
  "add_documents sv db chunks = db @ map (index_entry sv) chunks"

text \<open>
  Modelled from the spec: \<open>save\<close> (\<open>db.save_local\<close>) writes the whole index to the path,
  over what was there; a directory cannot be made where a regular file is.
\<close>

definition save_local :: "'v filesystem \<Rightarrow> 'v FAISS \<Rightarrow> pystr \<Rightarrow> error + 'v filesystem" where
  "save_local fs db path =
     (case fs path of
        Some RegularFile \<Rightarrow> Inl (FileExistsError path)
      | _ \<Rightarrow> Inr (fs(path \<mapsto> SavedIndex db)))"

text \<open>
  Modelled from the spec: \<open>load\<close> (\<open>FAISS.load_local\<close>) reads a persisted index back and
  fails when the path holds none.
\<close>

definition FAISS_load_local :: "'v filesystem \<Rightarrow> pystr \<Rightarrow> error + 'v FAISS" where
  "FAISS_load_local fs path =
     (case fs path of
        Some (SavedIndex db) \<Rightarrow> Inr db
      | _ \<Rightarrow> Inl (IndexLoadError path))"

text \<open>\<open>db.docstore._dict.values()\<close>: the documents of the entries, in insertion order.\<close>

definition docstore_values :: "'v FAISS \<Rightarrow> document list" where
  "docstore_values db = map snd db"

section \<open>document\_processor.py\<close>

subsection \<open>load\_documents\<close>

text \<open>
  The loop over \<open>os.listdir(folder_path)\<close>, with \<open>documents\<close> as its accumulator. A
  \<open>loader.load()\<close> that raises ends the loop and the call: the source has no handler.
\<close>

fun load_files ::
  "'v services \<Rightarrow> pystr \<Rightarrow> pystr list \<Rightarrow> document list \<Rightarrow> error + document list" where
  "load_files sv folder_path [] documents = Inr documents"
| "load_files sv folder_path (filename # rest) documents =
     (let file_path = os_path_join folder_path filename in
      if endswith filename (str ''.pdf'') then
        (case loader_load sv PyPDFLoader file_path of
           Inl e \<Rightarrow> Inl e
         | Inr loaded \<Rightarrow> load_files sv folder_path rest (documents @ loaded))
      else if endswith filename (str ''.docx'') then
        (case loader_load sv Docx2txtLoader file_path of
           Inl e \<Rightarrow> Inl e
         | Inr loaded \<Rightarrow> load_files sv folder_path rest (documents @ loaded))
      else load_files sv folder_path rest documents)"

definition load_documents ::
  "'v services \<Rightarrow> 'v filesystem \<Rightarrow> pystr \<Rightarrow> error + document list" where
  "load_documents sv fs folder_path =
     (case os_listdir fs folder_path of
        Inl e \<Rightarrow> Inl e
      | Inr names \<Rightarrow> load_files sv folder_path names [])"

subsection \<open>clean\_text\<close>

text \<open>
  \<open>re.sub(r'\s+', ' ', text)\<close>: scanning from the left, every maximal run of whitespace
  is replaced by one space; \<open>+\<close> is greedy, so a match takes the whole run.
\<close>

function re_sub_whitespace :: "pystr \<Rightarrow> pystr" where
  "re_sub_whitespace [] = []"
| "re_sub_whitespace (c # cs) =
     (if isspace c then SPACE # re_sub_whitespace (dropWhile isspace cs)
      else c # re_sub_whitespace cs)"
  by pat_completeness auto
termination
  by (relation "measure length") (auto simp: length_dropWhile_le less_Suc_eq_le)

text \<open>\<open>s.strip()\<close>: whitespace removed from both ends.\<close>

definition strip :: "pystr \<Rightarrow> pystr" where
  "strip s = rev (dropWhile isspace (rev (dropWhile isspace s)))"

definition clean_text :: "pystr \<Rightarrow> pystr" where
  "clean_text text = strip (re_sub_whitespace text)"

subsection \<open>chunk\_documents\<close>

text \<open>
  Modelled from the spec: \<open>split_documents\<close> of LangChain's text splitter is a library
  function and not part of the repository's sources. Section 4.2 of the specification:
  the text of each Document Record is split into an ordered sequence of chunks, and the
  metadata of each chunk is copied unchanged from the record it comes from. How a text
  is cut is left to the parameter \<open>split\<close>.
\<close>

definition split_documents :: "(pystr \<Rightarrow> pystr list) \<Rightarrow> document list \<Rightarrow> document list" where
  "split_documents split documents =
     concat (map (\<lambda>doc. map (\<lambda>piece. \<lparr>page_content = piece, metadata = metadata doc\<rparr>)
                          (split (page_content doc))) documents)"

text \<open>
  The splitter is built from \<open>chunk_size\<close> and \<open>chunk_overlap\<close> (500 and 50 unless the
  caller says otherwise), the documents are split, and the loop assigns the cleaned text
  to \<open>page_content\<close> of every chunk.
\<close>

definition chunk_documents ::
  "'v services \<Rightarrow> document list \<Rightarrow> int \<Rightarrow> int \<Rightarrow> document list" where
  "chunk_documents sv documents chunk_size chunk_overlap =
     (let chunks = split_documents (split_text sv chunk_size chunk_overlap) documents
      in map (\<lambda>chunk. chunk\<lparr>page_content := clean_text (page_content chunk)\<rparr>) chunks)"

section \<open>app.py\<close>

subsection \<open>Constants\<close>

definition BASE_DOCS_FOLDER :: pystr where
  "BASE_DOCS_FOLDER = str ''documents''"

definition UPLOADED_DOCS_FOLDER :: pystr where
  "UPLOADED_DOCS_FOLDER = str ''uploaded_docs''"

definition VECTOR_STORE_PATH :: pystr where
  "VECTOR_STORE_PATH = str ''faiss_combined_index''"

text \<open>
  The literal \<open>0.7\<close> denotes the double nearest to seven tenths, which is
  \<open>3152519739159347 / 2 ^ 52\<close>, a little below it.
\<close>

definition RELEVANCE_THRESHOLD :: pyfloat where
  "RELEVANCE_THRESHOLD = Finite (3152519739159347 / 4503599627370496)"

text \<open>
  The prompt template with its two fields filled in, as \<open>PromptTemplate\<close> formats it
  before the chain hands the text to the model.
\<close>

definition prompt_format :: "pystr \<Rightarrow> pystr \<Rightarrow> pystr" where
  "prompt_format context_text question =
     [NEWLINE]
     @ str ''You are a helpful legal assistant. Your task is to answer questions based ONLY on the provided legal document excerpts.''
     @ [NEWLINE]
     @ str ''If the provided context does not contain the answer to the question, you must state: ''
     @ [QUOTE]
     @ str ''I'm sorry, but the answer to that question is not found in the provided documents.''
     @ [QUOTE, NEWLINE]
     @ str ''Do not use any external knowledge.''
     @ [NEWLINE]
     @ str ''Your answers should be clear, concise, and directly based on the information in the excerpts.''
     @ [NEWLINE, NEWLINE]
     @ str ''Context from documents:''
     @ [NEWLINE] @ context_text @ [NEWLINE, NEWLINE]
     @ str ''Question:''
     @ [NEWLINE] @ question @ [NEWLINE, NEWLINE]
     @ str ''Answer:''
     @ [NEWLINE]"

definition NOT_FOUND_MESSAGE :: pystr where
  "NOT_FOUND_MESSAGE =
     str ''I'm sorry, but I couldn't find any relevant information in the documents for your question.''"

subsection \<open>create\_or\_load\_vector\_store\<close>

text \<open>
  The result is the file system the call leaves behind and what it returns: an
  exception, \<open>None\<close> or an index. The condition of the second \<open>if\<close> is evaluated left to
  right, so the directory is listed only when it exists.
\<close>

definition create_or_load_vector_store ::
  "'v services \<Rightarrow> 'v filesystem \<Rightarrow> 'v filesystem \<times> (error + 'v FAISS option)" where
  "create_or_load_vector_store sv fs =
     (if os_path_exists fs VECTOR_STORE_PATH then
        (case FAISS_load_local fs VECTOR_STORE_PATH of
           Inl e \<Rightarrow> (fs, Inl e)
         | Inr db \<Rightarrow> (fs, Inr (Some db)))
      else
        (case (if \<not> os_path_exists fs BASE_DOCS_FOLDER then Inr True
               else (case os_listdir fs BASE_DOCS_FOLDER of
                       Inl e \<Rightarrow> Inl e
                     | Inr names \<Rightarrow> Inr (names = []))) of
           Inl e \<Rightarrow> (fs, Inl e)
         | Inr True \<Rightarrow>
             (case os_makedirs fs BASE_DOCS_FOLDER True of
                Inl e \<Rightarrow> (fs, Inl e)
              | Inr fs' \<Rightarrow> (fs', Inr None))
         | Inr False \<Rightarrow>
             (case load_documents sv fs BASE_DOCS_FOLDER of
                Inl e \<Rightarrow> (fs, Inl e)
              | Inr docs \<Rightarrow>
                  if docs = [] then (fs, Inr None)
                  else
                    (let chunked_docs = chunk_documents sv docs 500 50 in
                     case FAISS_from_documents sv chunked_docs of
                       Inl e \<Rightarrow> (fs, Inl e)
                     | Inr db \<Rightarrow>
                         (case save_local fs db VECTOR_STORE_PATH of
                            Inl e \<Rightarrow> (fs, Inl e)
                          | Inr fs' \<Rightarrow> (fs', Inr (Some db)))))))"

subsection \<open>get\_answer\<close>

text \<open>
  The result is what the call returns (an exception, or the answer with the cited
  chunks) and the prompts it sent to the language model, in order.
\<close>

definition get_answer ::
  "'v services \<Rightarrow> 'v FAISS \<Rightarrow> pystr \<Rightarrow> int \<Rightarrow> (error + pystr \<times> document list) \<times> pystr list" where
  "get_answer sv db query k =
     (case similarity_search_with_relevance_scores sv db query k of
        Inl e \<Rightarrow> (Inl e, [])
      | Inr retrieved_docs_with_scores \<Rightarrow>
          (let relevant_docs =
                 [doc. (doc, score) \<leftarrow> retrieved_docs_with_scores,
                       float_lt score RELEVANCE_THRESHOLD]
           in if relevant_docs = [] then (Inr (NOT_FOUND_MESSAGE, []), [])
              else
                (let context_text = join [NEWLINE, NEWLINE] (map page_content relevant_docs);
                     prompt_text = prompt_format context_text query
                 in case llm_invoke sv prompt_text of
                      Inl e \<Rightarrow> (Inl e, [prompt_text])
                    | Inr answer \<Rightarrow> (Inr (answer, relevant_docs), [prompt_text]))))"

subsection \<open>get\_indexed\_documents\<close>

text \<open>
  \<open>doc.metadata.get('source', 'Unknown')\<close>, the set of these sources, and the sorted list
  of their base names. A Python set iterates in no fixed order; the list is sorted
  afterwards, and a sorted list of strings depends only on which strings it holds and how
  often, so any order of the distinct sources gives the same result.
\<close>

definition metadata_get_source :: "document \<Rightarrow> pystr" where
  "metadata_get_source doc =
     (case source (metadata doc) of None \<Rightarrow> str ''Unknown'' | Some src \<Rightarrow> src)"

definition get_indexed_documents :: "'v FAISS option \<Rightarrow> pystr list" where
  "get_indexed_documents db =
     (case db of
        None \<Rightarrow> []
      | Some store \<Rightarrow>
          (let all_docs = docstore_values store;
               sources = remdups (map metadata_get_source all_docs)
           in sort (map os_path_basename sources)))"

subsection \<open>The sidebar's merge of uploaded documents\<close>

text \<open>
  Lines 132 to 150 of \<open>app.py\<close>, after the uploaded files have been written to the upload
  folder. The result is the file system afterwards, the value of the variable \<open>db\<close>
  afterwards, and either an exception or whether the knowledge base was updated (the
  other outcome is the warning that there was nothing to process).
\<close>

definition merge_new_documents ::
  "'v services \<Rightarrow> 'v filesystem \<Rightarrow> 'v FAISS option
     \<Rightarrow> 'v filesystem \<times> 'v FAISS option \<times> (error + bool)" where
  "merge_new_documents sv fs db =
     (case load_documents sv fs UPLOADED_DOCS_FOLDER of
        Inl e \<Rightarrow> (fs, db, Inl e)
      | Inr new_docs \<Rightarrow>
          if new_docs = [] then (fs, db, Inr False)
          else
            (let new_chunked_docs = chunk_documents sv new_docs 500 50 in
             case (case db of
                     Some store \<Rightarrow> Inr (add_documents sv store new_chunked_docs)
                   | None \<Rightarrow> FAISS_from_documents sv new_chunked_docs) of
               Inl e \<Rightarrow> (fs, db, Inl e)
             | Inr db' \<Rightarrow>
                 (case save_local fs db' VECTOR_STORE_PATH of
                    Inl e \<Rightarrow> (fs, Some db', Inl e)
                  | Inr fs1 \<Rightarrow>
                      (case shutil_rmtree fs1 UPLOADED_DOCS_FOLDER of
                         Inl e \<Rightarrow> (fs1, Some db', Inl e)
                       | Inr fs2 \<Rightarrow>
                           (case os_makedirs fs2 UPLOADED_DOCS_FOLDER False of
                              Inl e \<Rightarrow> (fs2, Some db', Inl e)
                            | Inr fs3 \<Rightarrow> (fs3, Some db', Inr True))))))"

section \<open>Notions the properties are stated with\<close>

subsection \<open>Normalized text\<close>

text \<open>
  A text is normalized when its only whitespace characters are single spaces between
  two other characters: every whitespace character is the space, no two whitespace
  characters are neighbours, and neither end of the text is whitespace.
\<close>

fun no_adjacent_whitespace :: "pystr \<Rightarrow> bool" where
  "no_adjacent_whitespace [] = True"
| "no_adjacent_whitespace [c] = True"
| "no_adjacent_whitespace (a # b # cs) =
     (\<not> (isspace a \<and> isspace b) \<and> no_adjacent_whitespace (b # cs))"

definition normalized :: "pystr \<Rightarrow> bool" where
  "normalized s \<longleftrightarrow>
     (\<forall>c \<in> set s. isspace c \<longrightarrow> c = SPACE) \<and> no_adjacent_whitespace s \<and>
     (s \<noteq> [] \<longrightarrow> \<not> isspace (hd s) \<and> \<not> isspace (last s))"

text \<open>
  The words of a text, as \<open>str.split()\<close> gives them: the maximal runs of characters
  that are not whitespace, in order. Collapsing every run of whitespace to one space and
  trimming both ends leaves these words with one space between neighbours.
\<close>

function split_whitespace :: "pystr \<Rightarrow> pystr list" where
  "split_whitespace t =
     (case dropWhile isspace t of
        [] \<Rightarrow> []
      | c # cs \<Rightarrow>
          (c # takeWhile (\<lambda>x. \<not> isspace x) cs)
          # split_whitespace (dropWhile (\<lambda>x. \<not> isspace x) cs))"
  by pat_completeness auto
termination
proof (relation "measure length")
  show "wf (measure length)" by simp
next
  fix t :: pystr and c cs
  assume a: "dropWhile isspace t = c # cs"
  have "length (dropWhile (\<lambda>x. \<not> isspace x) cs) \<le> length cs"
    by (rule length_dropWhile_le)
  moreover have "length (c # cs) \<le> length t"
    using length_dropWhile_le [of isspace t] a by simp
  ultimately show "(dropWhile (\<lambda>x. \<not> isspace x) cs, t) \<in> measure length"
    by simp
qed

declare split_whitespace.simps [simp del]

subsection \<open>What the loop of load\_documents does with one file\<close>

text \<open>
  The loader the loop picks for a file name, and the outcome of the loop's body for it:
  a name with neither extension contributes no record.
\<close>

definition file_loader :: "pystr \<Rightarrow> loader option" where
  "file_loader filename =
     (if endswith filename (str ''.pdf'') then Some PyPDFLoader
      else if endswith filename (str ''.docx'') then Some Docx2txtLoader
      else None)"

definition load_file :: "'v services \<Rightarrow> pystr \<Rightarrow> pystr \<Rightarrow> error + document list" where
  "load_file sv folder_path filename =
     (case file_loader filename of
        None \<Rightarrow> Inr []
      | Some l \<Rightarrow> loader_load sv l (os_path_join folder_path filename))"

section \<open>An example knowledge base\<close>

text \<open>
  A lease of two pages in the base folder, and three uploads: an addendum, a scanned
  page without text, and a file the PDF parser rejects. The example splitter returns a
  short text as one piece and a text of nothing but whitespace as no piece.
\<close>

definition notes_txt :: pystr where
  "notes_txt = str ''notes.txt''"

definition lease_pdf :: pystr where
  "lease_pdf = str ''lease.pdf''"

definition addendum_docx :: pystr where
  "addendum_docx = str ''addendum.docx''"

definition scan_pdf :: pystr where
  "scan_pdf = str ''scan.pdf''"

definition broken_pdf :: pystr where
  "broken_pdf = str ''broken.pdf''"

definition base_lease_path :: pystr where
  "base_lease_path = str ''documents/lease.pdf''"

definition uploaded_lease_path :: pystr where
  "uploaded_lease_path = str ''uploaded_docs/lease.pdf''"

definition uploaded_addendum_path :: pystr where
  "uploaded_addendum_path = str ''uploaded_docs/addendum.docx''"

definition uploaded_scan_path :: pystr where
  "uploaded_scan_path = str ''uploaded_docs/scan.pdf''"

definition uploaded_broken_path :: pystr where
  "uploaded_broken_path = str ''uploaded_docs/broken.pdf''"

definition lease_page_0 :: document where
  "lease_page_0 =
     \<lparr>page_content = str ''Rent is due'' @ [NEWLINE, NEWLINE] @ str ''  monthly. '',
      metadata = \<lparr>source = Some base_lease_path, page = Some 0\<rparr>\<rparr>"

definition lease_page_1 :: document where
  "lease_page_1 =
     \<lparr>page_content = str ''Governed by the laws of New York.'',
      metadata = \<lparr>source = Some base_lease_path, page = Some 1\<rparr>\<rparr>"

definition addendum :: document where
  "addendum =
     \<lparr>page_content = str ''Notice period:'' @ [9] @ str ''thirty days'',
      metadata = \<lparr>source = Some uploaded_addendum_path, page = None\<rparr>\<rparr>"

definition scan_page :: document where
  "scan_page =
     \<lparr>page_content = [],
      metadata = \<lparr>source = Some uploaded_scan_path, page = Some 0\<rparr>\<rparr>"

definition lease_chunk_0 :: document where
  "lease_chunk_0 =
     \<lparr>page_content = str ''Rent is due monthly.'', metadata = metadata lease_page_0\<rparr>"

definition lease_chunk_1 :: document where
  "lease_chunk_1 =
     \<lparr>page_content = str ''Governed by the laws of New York.'', metadata = metadata lease_page_1\<rparr>"

definition addendum_chunk :: document where
  "addendum_chunk =
     \<lparr>page_content = str ''Notice period: thirty days'', metadata = metadata addendum\<rparr>"

definition uploaded_lease_chunk :: document where
  "uploaded_lease_chunk =
     \<lparr>page_content = str ''Rent is due quarterly.'',
      metadata = \<lparr>source = Some uploaded_lease_path, page = Some 0\<rparr>\<rparr>"

definition example_load :: "loader \<Rightarrow> pystr \<Rightarrow> error + document list" where
  "example_load l path =
     (if l = PyPDFLoader \<and> path = base_lease_path then Inr [lease_page_0, lease_page_1]
      else if l = Docx2txtLoader \<and> path = uploaded_addendum_path then Inr [addendum]
      else if l = PyPDFLoader \<and> path = uploaded_scan_path then Inr [scan_page]
      else Inl (LoadError path))"

definition sky_query :: pystr where
  "sky_query = str ''What color is the sky?''"

definition rent_query :: pystr where
  "rent_query = str ''When is rent due?''"

definition example_search ::
  "nat FAISS \<Rightarrow> pystr \<Rightarrow> int \<Rightarrow> error + (document \<times> pyfloat) list" where
  "example_search db query k =
     (if query = sky_query
      then Inr [(lease_chunk_1, Finite (9 / 10)), (lease_chunk_0, RELEVANCE_THRESHOLD)]
      else Inr [(lease_chunk_0, Finite (1 / 2)), (lease_chunk_1, RELEVANCE_THRESHOLD),
                (addendum_chunk, Finite (3 / 5))])"

definition example_services :: "nat services" where
  "example_services =
     \<lparr>embed_text = length,
      split_text = (\<lambda>chunk_size chunk_overlap text. if strip text = [] then [] else [text]),
      loader_load = example_load,
      similarity_search_with_relevance_scores = example_search,
      llm_invoke = (\<lambda>prompt_text. Inr (str ''monthly''))\<rparr>"

definition lease_store :: "nat FAISS" where
  "lease_store = map (index_entry example_services) [lease_chunk_0, lease_chunk_1]"

definition merged_store :: "nat FAISS" where
  "merged_store = lease_store @ [index_entry example_services addendum_chunk]"

definition same_name_store :: "nat FAISS" where
  "same_name_store = map (index_entry example_services) [lease_chunk_0, uploaded_lease_chunk]"

definition fs_saved :: "nat filesystem" where
  "fs_saved = [VECTOR_STORE_PATH \<mapsto> SavedIndex lease_store]"

definition fs_notes :: "nat filesystem" where
  "fs_notes = [BASE_DOCS_FOLDER \<mapsto> Folder [notes_txt]]"

definition fs_base :: "nat filesystem" where
  "fs_base = [BASE_DOCS_FOLDER \<mapsto> Folder [notes_txt, lease_pdf]]"

definition fs_upload :: "nat filesystem" where
  "fs_upload =
     [VECTOR_STORE_PATH \<mapsto> SavedIndex lease_store,
      UPLOADED_DOCS_FOLDER \<mapsto> Folder [addendum_docx, scan_pdf]]"

definition fs_broken :: "nat filesystem" where
  "fs_broken = [UPLOADED_DOCS_FOLDER \<mapsto> Folder [broken_pdf, addendum_docx]]"

section \<open>Joining strings\<close>

lemma foldl_join:
  "foldl (\<lambda>acc q. acc @ sep @ q) a ps = a @ concat (map (\<lambda>q. sep @ q) ps)"
  by (induction ps arbitrary: a) simp_all

lemma join_Cons: "join sep (p # ps) = p @ concat (map (\<lambda>q. sep @ q) ps)"
  by (simp add: join_def foldl_join)

lemma join_single: "join sep [a] = a"
  by (simp add: join_def)

lemma join_Cons_Cons: "join sep (a # b # bs) = a @ sep @ join sep (b # bs)"
  by (simp add: join_def foldl_join)

section \<open>The text cleaner\<close>

lemma isspace_SPACE: "isspace SPACE"
  by (simp add: isspace_def SPACE_def)

lemma re_sub_whitespace_nonspace:
  "\<not> isspace c \<Longrightarrow> re_sub_whitespace (c # cs) = c # re_sub_whitespace cs"
  by simp

lemma hd_re_sub_whitespace:
  "s \<noteq> [] \<Longrightarrow> \<not> isspace (hd s) \<Longrightarrow> hd (re_sub_whitespace s) = hd s"
  by (cases s) simp_all

lemma re_sub_whitespace_Nil_iff: "re_sub_whitespace s = [] \<longleftrightarrow> s = []"
  by (cases s) simp_all

lemma no_adjacent_whitespace_Cons:
  "no_adjacent_whitespace (a # s) \<longleftrightarrow>
     (s = [] \<or> \<not> (isspace a \<and> isspace (hd s))) \<and> no_adjacent_whitespace s"
  by (cases s) auto

lemma hd_dropWhile_isspace:
  "dropWhile isspace cs \<noteq> [] \<Longrightarrow> \<not> isspace (hd (dropWhile isspace cs))"
  by (rule hd_dropWhile)

lemma set_re_sub_whitespace:
  "c \<in> set (re_sub_whitespace s) \<Longrightarrow> isspace c \<Longrightarrow> c = SPACE"
proof (induction s rule: re_sub_whitespace.induct)
  case 1
  then show ?case by simp
next
  case (2 a cs)
  then show ?case by (auto split: if_splits)
qed

lemma no_adjacent_re_sub_whitespace: "no_adjacent_whitespace (re_sub_whitespace s)"
proof (induction s rule: re_sub_whitespace.induct)
  case 1
  show ?case by simp
next
  case (2 a cs)
  show ?case
  proof (cases "isspace a")
    case True
    let ?r = "dropWhile isspace cs"
    have "re_sub_whitespace ?r = [] \<or> \<not> isspace (hd (re_sub_whitespace ?r))"
    proof (cases "?r = []")
      case True
      then have "re_sub_whitespace ?r = []" by (simp only: re_sub_whitespace.simps)
      then show ?thesis by blast
    next
      case False
      then have "\<not> isspace (hd ?r)" by (rule hd_dropWhile)
      with False show ?thesis by (simp add: hd_re_sub_whitespace)
    qed
    with True 2 show ?thesis by (auto simp: no_adjacent_whitespace_Cons)
  next
    case False
    with 2 show ?thesis by (auto simp: no_adjacent_whitespace_Cons)
  qed
qed

lemma no_adjacent_whitespace_append:
  "no_adjacent_whitespace (xs @ ys) \<Longrightarrow> no_adjacent_whitespace xs \<and> no_adjacent_whitespace ys"
proof (induction xs rule: no_adjacent_whitespace.induct)
  case 1
  then show ?case by simp
next
  case (2 c)
  then show ?case by (simp add: no_adjacent_whitespace_Cons)
next
  case (3 a b cs)
  then show ?case by simp
qed

lemma rev_split_dropWhile:
  "u = rev (dropWhile P (rev u)) @ rev (takeWhile P (rev u))"
proof -
  have "rev (takeWhile P (rev u) @ dropWhile P (rev u)) = rev (rev u)"
    by (simp only: takeWhile_dropWhile_id)
  then show ?thesis by (simp only: rev_append rev_rev_ident)
qed

lemma dropWhile_rev_nonempty: "dropWhile P (rev xs) \<noteq> [] \<Longrightarrow> xs \<noteq> []"
  by auto

lemma strip_decompose:
  "\<exists>pre post. s = pre @ strip s @ post"
proof -
  let ?u = "dropWhile isspace s"
  have 1: "s = takeWhile isspace s @ ?u" by simp
  have 2: "?u = strip s @ rev (takeWhile isspace (rev ?u))"
    unfolding strip_def by (rule rev_split_dropWhile)
  from 1 2 have "s = takeWhile isspace s @ strip s @ rev (takeWhile isspace (rev ?u))"
    by simp
  then show ?thesis by blast
qed

lemma last_dropWhile: "dropWhile P xs \<noteq> [] \<Longrightarrow> last (dropWhile P xs) = last xs"
  by (induction xs) (auto split: if_splits)

lemma strip_ends:
  assumes "strip s \<noteq> []"
  shows "\<not> isspace (hd (strip s))" and "\<not> isspace (last (strip s))"
proof -
  let ?u = "dropWhile isspace s"
  let ?w = "dropWhile isspace (rev ?u)"
  from assms have w: "?w \<noteq> []" by (simp add: strip_def)
  then have u: "?u \<noteq> []" by (rule dropWhile_rev_nonempty)
  have "hd (strip s) = last ?w" using w by (simp add: strip_def hd_rev)
  also have "\<dots> = last (rev ?u)" using w by (rule last_dropWhile)
  also have "\<dots> = hd ?u" using u by (simp add: last_rev)
  finally have "hd (strip s) = hd ?u" .
  moreover have "\<not> isspace (hd ?u)" using u by (rule hd_dropWhile)
  ultimately show "\<not> isspace (hd (strip s))" by simp
  have "last (strip s) = hd ?w" using w by (simp add: strip_def last_rev)
  moreover have "\<not> isspace (hd ?w)" using w by (rule hd_dropWhile)
  ultimately show "\<not> isspace (last (strip s))" by simp
qed

lemma normalized_clean_text: "normalized (clean_text t)"
proof -
  let ?r = "re_sub_whitespace t"
  obtain pre post where d: "?r = pre @ strip ?r @ post"
    using strip_decompose by blast
  have "no_adjacent_whitespace (pre @ strip ?r @ post)"
    using no_adjacent_re_sub_whitespace [of t] d by simp
  then have a: "no_adjacent_whitespace (strip ?r)"
    using no_adjacent_whitespace_append by blast
  have "set (strip ?r) \<subseteq> set ?r"
  proof -
    have "set (strip ?r) \<subseteq> set (pre @ strip ?r @ post)" by auto
    with d show ?thesis by simp
  qed
  then have b: "\<forall>c \<in> set (strip ?r). isspace c \<longrightarrow> c = SPACE"
    using set_re_sub_whitespace by blast
  show ?thesis
    unfolding normalized_def clean_text_def
    using a b strip_ends [of ?r] by blast
qed

lemma re_sub_whitespace_fixed:
  "\<forall>c \<in> set s. isspace c \<longrightarrow> c = SPACE \<Longrightarrow> no_adjacent_whitespace s \<Longrightarrow> re_sub_whitespace s = s"
proof (induction s rule: re_sub_whitespace.induct)
  case 1
  show ?case by simp
next
  case (2 a cs)
  show ?case
  proof (cases "isspace a")
    case True
    with 2 have a: "a = SPACE" by simp
    from 2 True have "cs = [] \<or> \<not> isspace (hd cs)" by (simp add: no_adjacent_whitespace_Cons)
    then have dw: "dropWhile isspace cs = cs" by (cases cs) auto
    from 2 have "no_adjacent_whitespace cs" by (simp add: no_adjacent_whitespace_Cons)
    with 2 True dw have "re_sub_whitespace (dropWhile isspace cs) = cs" by simp
    with True a show ?thesis by simp
  next
    case False
    with 2 show ?thesis by (simp add: no_adjacent_whitespace_Cons)
  qed
qed

lemma strip_fixed:
  assumes "s \<noteq> [] \<longrightarrow> \<not> isspace (hd s) \<and> \<not> isspace (last s)"
  shows "strip s = s"
proof (cases "s = []")
  case True
  then show ?thesis by (simp add: strip_def)
next
  case False
  with assms have h: "\<not> isspace (hd s)" and l: "\<not> isspace (last s)" by simp_all
  from False h have 1: "dropWhile isspace s = s" by (cases s) auto
  from False l have "\<not> isspace (hd (rev s))" by (simp add: hd_rev)
  with False have 2: "dropWhile isspace (rev s) = rev s" by (cases "rev s") auto
  show ?thesis by (simp add: strip_def 1 2)
qed

lemma clean_text_fixed: "normalized s \<Longrightarrow> clean_text s = s"
  by (simp add: normalized_def clean_text_def re_sub_whitespace_fixed strip_fixed)

subsection \<open>The cleaned text is the words joined by single spaces\<close>

lemma re_sub_whitespace_word:
  "\<forall>x \<in> set w. \<not> isspace x \<Longrightarrow> re_sub_whitespace (w @ r) = w @ re_sub_whitespace r"
  by (induction w) simp_all

lemma strip_leading_space: "isspace s \<Longrightarrow> strip (s # x) = strip x"
  by (simp add: strip_def)

lemma strip_re_sub_whitespace_dropWhile:
  "strip (re_sub_whitespace (dropWhile isspace t)) = strip (re_sub_whitespace t)"
proof (cases t)
  case Nil
  then show ?thesis by simp
next
  case (Cons c cs)
  then show ?thesis by (simp add: strip_leading_space isspace_SPACE)
qed

lemma strip_word:
  assumes "w \<noteq> []" and "\<forall>x \<in> set w. \<not> isspace x"
  shows "strip (w @ y) = w @ rev (dropWhile isspace (rev y))"
proof -
  from assms have h: "\<not> isspace (hd w)" by (cases w) simp_all
  with assms(1) have 1: "dropWhile isspace (w @ y) = w @ y" by (cases w) simp_all
  from assms have "\<not> isspace (hd (rev w))" by (simp add: hd_rev)
  with assms(1) have 2: "dropWhile isspace (rev w) = rev w" by (cases "rev w") simp_all
  have 3: "strip (w @ y) = rev (dropWhile isspace (rev y @ rev w))"
    by (simp only: strip_def 1 rev_append)
  show ?thesis
  proof (cases "\<forall>x \<in> set (rev y). isspace x")
    case True
    then have "dropWhile isspace (rev y @ rev w) = rev w"
      by (simp add: dropWhile_append 2)
    moreover from True have "dropWhile isspace (rev y) = []"
      by (simp only: dropWhile_eq_Nil_conv)
    ultimately show ?thesis using 3 by simp
  next
    case False
    then have "dropWhile isspace (rev y @ rev w) = dropWhile isspace (rev y) @ rev w"
      by (simp only: dropWhile_append if_False)
    with 3 show ?thesis by simp
  qed
qed

lemma rstrip_re_sub_whitespace:
  assumes "r = [] \<or> isspace (hd r)"
  shows "rev (dropWhile isspace (rev (re_sub_whitespace r))) =
           (if dropWhile isspace r = [] then []
            else SPACE # strip (re_sub_whitespace (dropWhile isspace r)))"
proof (cases r)
  case Nil
  then show ?thesis by simp
next
  case (Cons s r0)
  with assms have s: "isspace s" by simp
  let ?u = "dropWhile isspace r0"
  let ?z = "re_sub_whitespace ?u"
  from Cons s have u: "dropWhile isspace r = ?u" by simp
  from Cons s have r: "re_sub_whitespace r = SPACE # ?z" by simp
  show ?thesis
  proof (cases "?u = []")
    case True
    then have "?z = []" by (simp only: re_sub_whitespace.simps)
    with True r u show ?thesis by (simp add: isspace_SPACE)
  next
    case False
    then have nh: "\<not> isspace (hd ?u)" by (rule hd_dropWhile)
    with False have hz: "hd ?z = hd ?u" by (simp add: hd_re_sub_whitespace)
    from False have zn: "?z \<noteq> []" by (simp only: re_sub_whitespace_Nil_iff not_False_eq_True)
    from zn hz nh have dz: "dropWhile isspace ?z = ?z" by (cases ?z) simp_all
    from zn hz nh have "\<exists>x \<in> set ?z. \<not> isspace x" by (cases ?z) auto
    then have "\<not> (\<forall>x \<in> set (rev ?z). isspace x)" by simp
    then have "dropWhile isspace (rev ?z @ [SPACE]) = dropWhile isspace (rev ?z) @ [SPACE]"
      by (simp only: dropWhile_append if_False)
    then have "rev (dropWhile isspace (rev (SPACE # ?z))) = SPACE # rev (dropWhile isspace (rev ?z))"
      by simp
    moreover have "strip ?z = rev (dropWhile isspace (rev ?z))"
      by (simp only: strip_def dz)
    ultimately show ?thesis using False r u by simp
  qed
qed

lemma split_whitespace_Nil:
  "dropWhile isspace t = [] \<Longrightarrow> split_whitespace t = []"
  by (subst split_whitespace.simps) (simp only: list.case)

lemma split_whitespace_Cons:
  "dropWhile isspace t = c # cs \<Longrightarrow>
   split_whitespace t =
     (c # takeWhile (\<lambda>x. \<not> isspace x) cs) # split_whitespace (dropWhile (\<lambda>x. \<not> isspace x) cs)"
  by (subst split_whitespace.simps) (simp only: list.case)

lemma split_whitespace_Nil_iff: "split_whitespace r = [] \<longleftrightarrow> dropWhile isspace r = []"
proof (cases "dropWhile isspace r")
  case Nil
  then show ?thesis by (simp add: split_whitespace_Nil)
next
  case (Cons c cs)
  from split_whitespace_Cons [OF Cons] Cons show ?thesis by simp
qed

lemma clean_text_words: "clean_text t = join [SPACE] (split_whitespace t)"
  unfolding clean_text_def
proof (induction t rule: split_whitespace.induct)
  case (1 t)
  show ?case
  proof (cases "dropWhile isspace t")
    case Nil
    then have "strip (re_sub_whitespace (dropWhile isspace t)) = []"
      by (simp only: re_sub_whitespace.simps) (simp add: strip_def)
    then have "strip (re_sub_whitespace t) = []"
      by (simp only: strip_re_sub_whitespace_dropWhile)
    moreover from Nil have "split_whitespace t = []"
      by (rule split_whitespace_Nil)
    ultimately show ?thesis by (simp add: join_def)
  next
    case (Cons c cs)
    let ?w = "c # takeWhile (\<lambda>x. \<not> isspace x) cs"
    let ?r = "dropWhile (\<lambda>x. \<not> isspace x) cs"
    from Cons have sw: "split_whitespace t = ?w # split_whitespace ?r"
      by (rule split_whitespace_Cons)
    have "dropWhile isspace t \<noteq> []" using Cons by simp
    then have "\<not> isspace (hd (dropWhile isspace t))" by (rule hd_dropWhile)
    with Cons have c: "\<not> isspace c" by simp
    have w: "\<forall>x \<in> set ?w. \<not> isspace x"
      using c by (auto dest: set_takeWhileD)
    have r: "?r = [] \<or> isspace (hd ?r)"
      using hd_dropWhile [of "\<lambda>x. \<not> isspace x" cs] by auto
    have ih: "strip (re_sub_whitespace ?r) = join [SPACE] (split_whitespace ?r)"
      using "1.IH" [OF Cons] .
    have "strip (re_sub_whitespace t) = strip (re_sub_whitespace (dropWhile isspace t))"
      by (simp only: strip_re_sub_whitespace_dropWhile)
    also have "dropWhile isspace t = ?w @ ?r" using Cons by simp
    also have "re_sub_whitespace (?w @ ?r) = ?w @ re_sub_whitespace ?r"
      using w by (rule re_sub_whitespace_word)
    also have "strip (?w @ re_sub_whitespace ?r) =
        ?w @ rev (dropWhile isspace (rev (re_sub_whitespace ?r)))"
      using w by (intro strip_word) simp_all
    also have "rev (dropWhile isspace (rev (re_sub_whitespace ?r))) =
        (if dropWhile isspace ?r = [] then []
         else SPACE # strip (re_sub_whitespace (dropWhile isspace ?r)))"
      using r by (rule rstrip_re_sub_whitespace)
    also have "strip (re_sub_whitespace (dropWhile isspace ?r)) = join [SPACE] (split_whitespace ?r)"
      by (simp only: strip_re_sub_whitespace_dropWhile ih)
    finally have g: "strip (re_sub_whitespace t) =
        ?w @ (if dropWhile isspace ?r = [] then [] else SPACE # join [SPACE] (split_whitespace ?r))" .
    show ?thesis
    proof (cases "split_whitespace ?r")
      case Nil
      then have e: "dropWhile isspace ?r = []" by (simp only: split_whitespace_Nil_iff)
      have "strip (re_sub_whitespace t) = ?w"
        unfolding g e by simp
      moreover have "join [SPACE] (split_whitespace t) = ?w"
        by (simp only: sw Nil join_single)
      ultimately show ?thesis by (simp only:)
    next
      case (Cons p ps)
      then have "split_whitespace ?r \<noteq> []" by simp
      then have e: "dropWhile isspace ?r \<noteq> []"
        by (simp only: split_whitespace_Nil_iff not_False_eq_True)
      have "strip (re_sub_whitespace t) = ?w @ SPACE # join [SPACE] (p # ps)"
        unfolding g Cons using e by (simp only: if_False)
      moreover have "join [SPACE] (split_whitespace t) = ?w @ [SPACE] @ join [SPACE] (p # ps)"
        by (simp only: sw Cons join_Cons_Cons)
      ultimately show ?thesis by simp
    qed
  qed
qed

text \<open>
  Claim C10: text normalization is idempotent. For every string, cleaning the cleaned
  text gives the cleaned text again, so cleaning a chunk that is already normalized
  changes nothing.
\<close>

theorem clean_text_idempotent: "clean_text (clean_text t) = clean_text t"
  by (rule clean_text_fixed) (rule normalized_clean_text)

section \<open>The example knowledge base, evaluated\<close>

lemma example_clean_text:
  "clean_text (page_content lease_page_0) = page_content lease_chunk_0"
  "clean_text (page_content lease_page_1) = page_content lease_chunk_1"
  "clean_text (page_content addendum) = page_content addendum_chunk"
  by (simp_all add: lease_page_0_def lease_page_1_def addendum_def clean_text_def strip_def
      isspace_def SPACE_def NEWLINE_def lease_chunk_0_def lease_chunk_1_def addendum_chunk_def)

lemma example_split_text:
  "split_text example_services 500 50 (page_content lease_page_0) = [page_content lease_page_0]"
  "split_text example_services 500 50 (page_content lease_page_1) = [page_content lease_page_1]"
  "split_text example_services 500 50 (page_content addendum) = [page_content addendum]"
  "split_text example_services 500 50 (page_content scan_page) = []"
  by (simp_all add: example_services_def lease_page_0_def lease_page_1_def addendum_def
      scan_page_def strip_def isspace_def NEWLINE_def)

lemma example_chunk_records:
  "\<lparr>page_content = page_content lease_chunk_0, metadata = metadata lease_page_0\<rparr> = lease_chunk_0"
  "\<lparr>page_content = page_content lease_chunk_1, metadata = metadata lease_page_1\<rparr> = lease_chunk_1"
  "\<lparr>page_content = page_content addendum_chunk, metadata = metadata addendum\<rparr> = addendum_chunk"
  by (simp_all add: lease_chunk_0_def lease_chunk_1_def addendum_chunk_def)

lemma example_chunks_lease:
  "chunk_documents example_services [lease_page_0, lease_page_1] 500 50 =
     [lease_chunk_0, lease_chunk_1]"
  by (simp add: chunk_documents_def split_documents_def example_split_text example_clean_text
      example_chunk_records)

lemma example_chunks_upload:
  "chunk_documents example_services [addendum, scan_page] 500 50 = [addendum_chunk]"
  by (simp add: chunk_documents_def split_documents_def example_split_text example_clean_text
      example_chunk_records)

lemma example_file_loader:
  "file_loader notes_txt = None"
  "file_loader lease_pdf = Some PyPDFLoader"
  "file_loader addendum_docx = Some Docx2txtLoader"
  "file_loader scan_pdf = Some PyPDFLoader"
  "file_loader broken_pdf = Some PyPDFLoader"
  by (simp_all add: file_loader_def endswith_def notes_txt_def lease_pdf_def addendum_docx_def
      scan_pdf_def broken_pdf_def)

lemma example_paths:
  "os_path_join BASE_DOCS_FOLDER lease_pdf = base_lease_path"
  "os_path_join UPLOADED_DOCS_FOLDER addendum_docx = uploaded_addendum_path"
  "os_path_join UPLOADED_DOCS_FOLDER scan_pdf = uploaded_scan_path"
  "os_path_join UPLOADED_DOCS_FOLDER broken_pdf = uploaded_broken_path"
  by (simp_all add: os_path_join_def BASE_DOCS_FOLDER_def UPLOADED_DOCS_FOLDER_def SLASH_def
      lease_pdf_def addendum_docx_def scan_pdf_def broken_pdf_def base_lease_path_def
      uploaded_addendum_path_def uploaded_scan_path_def uploaded_broken_path_def)

lemma example_paths_differ:
  "uploaded_scan_path \<noteq> base_lease_path"
  "uploaded_broken_path \<noteq> base_lease_path"
  "uploaded_broken_path \<noteq> uploaded_scan_path"
  "uploaded_lease_path \<noteq> base_lease_path"
  "base_lease_path \<noteq> uploaded_lease_path"
  "base_lease_path \<noteq> uploaded_addendum_path"
  "uploaded_addendum_path \<noteq> base_lease_path"
  by (simp_all add: base_lease_path_def uploaded_scan_path_def uploaded_broken_path_def
      uploaded_lease_path_def uploaded_addendum_path_def)

lemma example_load_file:
  "load_file example_services BASE_DOCS_FOLDER notes_txt = Inr []"
  "load_file example_services BASE_DOCS_FOLDER lease_pdf = Inr [lease_page_0, lease_page_1]"
  "load_file example_services UPLOADED_DOCS_FOLDER addendum_docx = Inr [addendum]"
  "load_file example_services UPLOADED_DOCS_FOLDER scan_pdf = Inr [scan_page]"
  "load_file example_services UPLOADED_DOCS_FOLDER broken_pdf = Inl (LoadError uploaded_broken_path)"
  by (simp_all add: load_file_def example_file_loader example_paths example_services_def
      example_load_def example_paths_differ)

lemma paths_distinct:
  "BASE_DOCS_FOLDER \<noteq> VECTOR_STORE_PATH" "UPLOADED_DOCS_FOLDER \<noteq> VECTOR_STORE_PATH"
  "VECTOR_STORE_PATH \<noteq> BASE_DOCS_FOLDER" "VECTOR_STORE_PATH \<noteq> UPLOADED_DOCS_FOLDER"
  "BASE_DOCS_FOLDER \<noteq> UPLOADED_DOCS_FOLDER" "UPLOADED_DOCS_FOLDER \<noteq> BASE_DOCS_FOLDER"
  by (simp_all add: BASE_DOCS_FOLDER_def VECTOR_STORE_PATH_def UPLOADED_DOCS_FOLDER_def)

lemma load_files_step:
  "load_files sv folder_path (filename # rest) documents =
     (case load_file sv folder_path filename of
        Inl e \<Rightarrow> Inl e
      | Inr loaded \<Rightarrow> load_files sv folder_path rest (documents @ loaded))"
  by (simp add: load_file_def file_loader_def Let_def)

lemma example_listdir:
  "os_listdir fs_notes BASE_DOCS_FOLDER = Inr [notes_txt]"
  "os_listdir fs_base BASE_DOCS_FOLDER = Inr [notes_txt, lease_pdf]"
  "os_listdir fs_upload UPLOADED_DOCS_FOLDER = Inr [addendum_docx, scan_pdf]"
  "os_listdir fs_broken UPLOADED_DOCS_FOLDER = Inr [broken_pdf, addendum_docx]"
  by (simp_all add: os_listdir_def fs_notes_def fs_base_def fs_upload_def fs_broken_def)

lemma example_load_documents:
  "load_documents example_services fs_notes BASE_DOCS_FOLDER = Inr []"
  "load_documents example_services fs_base BASE_DOCS_FOLDER = Inr [lease_page_0, lease_page_1]"
  "load_documents example_services fs_upload UPLOADED_DOCS_FOLDER = Inr [addendum, scan_page]"
  "load_documents example_services fs_broken UPLOADED_DOCS_FOLDER = Inl (LoadError uploaded_broken_path)"
  by (simp_all add: load_documents_def example_listdir load_files_step example_load_file
      del: load_files.simps(2))

lemma example_sources:
  "metadata_get_source lease_chunk_0 = base_lease_path"
  "metadata_get_source lease_chunk_1 = base_lease_path"
  "metadata_get_source addendum_chunk = uploaded_addendum_path"
  "metadata_get_source addendum = uploaded_addendum_path"
  "metadata_get_source scan_page = uploaded_scan_path"
  "metadata_get_source uploaded_lease_chunk = uploaded_lease_path"
  by (simp_all add: metadata_get_source_def lease_chunk_0_def lease_chunk_1_def
      addendum_chunk_def addendum_def scan_page_def uploaded_lease_chunk_def lease_page_0_def
      lease_page_1_def)

lemma example_basenames:
  "os_path_basename base_lease_path = lease_pdf"
  "os_path_basename uploaded_lease_path = lease_pdf"
  "os_path_basename uploaded_addendum_path = addendum_docx"
  "os_path_basename uploaded_scan_path = scan_pdf"
  by (simp_all add: os_path_basename_def SLASH_def base_lease_path_def uploaded_lease_path_def
      uploaded_addendum_path_def uploaded_scan_path_def lease_pdf_def addendum_docx_def
      scan_pdf_def)

lemma example_names_order:
  "addendum_docx \<le> lease_pdf" "\<not> lease_pdf \<le> addendum_docx"
  "scan_pdf \<noteq> addendum_docx" "scan_pdf \<noteq> lease_pdf"
  by (simp_all add: addendum_docx_def lease_pdf_def scan_pdf_def)

lemma example_docstores:
  "docstore_values lease_store = [lease_chunk_0, lease_chunk_1]"
  "docstore_values merged_store = [lease_chunk_0, lease_chunk_1, addendum_chunk]"
  "docstore_values same_name_store = [lease_chunk_0, uploaded_lease_chunk]"
  by (simp_all add: docstore_values_def lease_store_def merged_store_def same_name_store_def
      index_entry_def)

lemma example_listings:
  "get_indexed_documents (Some lease_store) = [lease_pdf]"
  "get_indexed_documents (Some merged_store) = [addendum_docx, lease_pdf]"
  "get_indexed_documents (Some same_name_store) = [lease_pdf, lease_pdf]"
  by (simp_all add: get_indexed_documents_def example_docstores example_sources
      example_basenames example_paths_differ example_names_order)

section \<open>Loading a folder\<close>

lemma load_files_aborts:
  "\<exists>f \<in> set names. isl (load_file sv folder_path f) \<Longrightarrow>
   \<exists>pre f post e.
     names = pre @ f # post \<and> (\<forall>g \<in> set pre. \<not> isl (load_file sv folder_path g)) \<and>
     load_file sv folder_path f = Inl e \<and> load_files sv folder_path names documents = Inl e"
proof (induction names arbitrary: documents)
  case Nil
  then show ?case by simp
next
  case (Cons filename rest)
  show ?case
  proof (cases "load_file sv folder_path filename")
    case (Inl e)
    then have "filename # rest = [] @ filename # rest \<and>
        (\<forall>g \<in> set []. \<not> isl (load_file sv folder_path g)) \<and>
        load_file sv folder_path filename = Inl e \<and>
        load_files sv folder_path (filename # rest) documents = Inl e"
      by (simp add: load_files_step del: load_files.simps)
    then show ?thesis by blast
  next
    case (Inr loaded)
    with Cons.prems have "\<exists>f \<in> set rest. isl (load_file sv folder_path f)" by auto
    from Cons.IH [OF this, of "documents @ loaded"]
    obtain pre f post e where r: "rest = pre @ f # post"
      and p: "\<forall>g \<in> set pre. \<not> isl (load_file sv folder_path g)"
      and f: "load_file sv folder_path f = Inl e"
      and l: "load_files sv folder_path rest (documents @ loaded) = Inl e"
      by blast
    from r p f l Inr have "filename # rest = (filename # pre) @ f # post \<and>
        (\<forall>g \<in> set (filename # pre). \<not> isl (load_file sv folder_path g)) \<and>
        load_file sv folder_path f = Inl e \<and>
        load_files sv folder_path (filename # rest) documents = Inl e"
      by (simp add: load_files_step del: load_files.simps)
    then show ?thesis by blast
  qed
qed

lemma load_files_all_parse:
  "\<forall>f \<in> set names. \<not> isl (load_file sv folder_path f) \<Longrightarrow>
   load_files sv folder_path names documents =
     Inr (documents @ concat (map (\<lambda>f. projr (load_file sv folder_path f)) names))"
proof (induction names arbitrary: documents)
  case Nil
  then show ?case by simp
next
  case (Cons filename rest)
  then show ?case
    by (cases "load_file sv folder_path filename")
       (auto simp: load_files_step simp del: load_files.simps)
qed

text \<open>
  Claim C7, as amended: a folder with at least one file that fails to parse is not loaded
  at all. The call ends with the exception of the first file of the listing that fails,
  after the files before it have parsed, and returns no record; no file is skipped and no
  warning is collected.
\<close>

theorem load_documents_aborts_on_failing_file:
  assumes "os_listdir fs folder_path = Inr names"
    and "\<exists>f \<in> set names. isl (load_file sv folder_path f)"
  shows "\<exists>pre f post e.
           names = pre @ f # post \<and> (\<forall>g \<in> set pre. \<not> isl (load_file sv folder_path g)) \<and>
           load_file sv folder_path f = Inl e \<and> load_documents sv fs folder_path = Inl e"
  using assms load_files_aborts [of names sv folder_path "[]"]
  by (simp add: load_documents_def)

theorem load_documents_aborts_on_failing_file_witness:
  "os_listdir fs_broken UPLOADED_DOCS_FOLDER = Inr [broken_pdf, addendum_docx] \<and>
   isl (load_file example_services UPLOADED_DOCS_FOLDER broken_pdf) \<and>
   load_documents example_services fs_broken UPLOADED_DOCS_FOLDER = Inl (LoadError uploaded_broken_path)"
proof -
  have l: "os_listdir fs_broken UPLOADED_DOCS_FOLDER = Inr [broken_pdf, addendum_docx]"
    by (rule example_listdir)
  have b: "isl (load_file example_services UPLOADED_DOCS_FOLDER broken_pdf)"
    by (simp add: example_load_file)
  then have "\<exists>f \<in> set [broken_pdf, addendum_docx]. isl (load_file example_services UPLOADED_DOCS_FOLDER f)"
    by simp
  from load_documents_aborts_on_failing_file [OF l this]
  obtain pre f post e where n: "[broken_pdf, addendum_docx] = pre @ f # post"
    and f: "load_file example_services UPLOADED_DOCS_FOLDER f = Inl e"
    and e: "load_documents example_services fs_broken UPLOADED_DOCS_FOLDER = Inl e"
    by blast
  have "f \<in> set (pre @ f # post)" by simp
  with n have "f \<in> set [broken_pdf, addendum_docx]" by simp
  with f have "e = LoadError uploaded_broken_path"
    by (auto simp: example_load_file)
  with l b e show ?thesis by simp
qed

text \<open>
  The claim as it stands fails on the example: the parser rejects \<open>broken.pdf\<close>, the
  addendum beside it parses, and the call returns the exception, not the addendum's
  record.
\<close>

theorem load_documents_skips_nothing:
  "load_file example_services UPLOADED_DOCS_FOLDER addendum_docx = Inr [addendum] \<and>
   load_file example_services UPLOADED_DOCS_FOLDER broken_pdf = Inl (LoadError uploaded_broken_path) \<and>
   load_documents example_services fs_broken UPLOADED_DOCS_FOLDER = Inl (LoadError uploaded_broken_path) \<and>
   load_documents example_services fs_broken UPLOADED_DOCS_FOLDER \<noteq> Inr [addendum]"
  by (simp add: example_load_file example_load_documents)

section \<open>Chunks\<close>

text \<open>
  Claim C5: every chunk the chunking operation produces has normalized text. Its only
  whitespace characters are single spaces, each between two characters that are not
  whitespace, and nothing is left at either end; the text is that of the piece it was
  split as, with every run of whitespace collapsed to one space: the words of the piece
  joined by single spaces.
\<close>

theorem chunk_documents_normalized:
  "(\<forall>c \<in> set (chunk_documents sv documents chunk_size chunk_overlap). normalized (page_content c)) \<and>
   map page_content (chunk_documents sv documents chunk_size chunk_overlap) =
     map (\<lambda>piece. join [SPACE] (split_whitespace (page_content piece)))
         (split_documents (split_text sv chunk_size chunk_overlap) documents)"
  by (auto simp: chunk_documents_def normalized_clean_text clean_text_words [symmetric])

theorem chunk_documents_normalized_witness:
  "lease_chunk_0 \<in> set (chunk_documents example_services [lease_page_0, lease_page_1] 500 50) \<and>
   normalized (page_content lease_chunk_0)"
proof -
  have m: "lease_chunk_0 \<in> set (chunk_documents example_services [lease_page_0, lease_page_1] 500 50)"
    by (simp add: example_chunks_lease)
  from chunk_documents_normalized [THEN conjunct1, THEN bspec, OF m] m show ?thesis by simp
qed

text \<open>
  Claim C9: the chunks of a Document Record carry the record's metadata. The chunks of a
  sequence of records are, record by record and piece by piece, the cleaned piece with
  the metadata of the record it was split from; cleaning alters the text and leaves the
  metadata of every chunk as the splitter set it.
\<close>

theorem chunk_documents_metadata:
  "chunk_documents sv documents chunk_size chunk_overlap =
     concat (map (\<lambda>doc. map (\<lambda>piece. \<lparr>page_content = clean_text piece, metadata = metadata doc\<rparr>)
                          (split_text sv chunk_size chunk_overlap (page_content doc))) documents) \<and>
   map metadata (chunk_documents sv documents chunk_size chunk_overlap) =
     map metadata (split_documents (split_text sv chunk_size chunk_overlap) documents)"
  by (simp add: chunk_documents_def split_documents_def map_concat comp_def)

lemma chunk_of_document:
  assumes "d \<in> set documents" and "split_text sv chunk_size chunk_overlap (page_content d) \<noteq> []"
  shows "\<exists>c \<in> set (chunk_documents sv documents chunk_size chunk_overlap). metadata c = metadata d"
proof -
  from assms(2) obtain piece where "piece \<in> set (split_text sv chunk_size chunk_overlap (page_content d))"
    by (cases "split_text sv chunk_size chunk_overlap (page_content d)") auto
  with assms(1) have "\<lparr>page_content = clean_text piece, metadata = metadata d\<rparr>
      \<in> set (chunk_documents sv documents chunk_size chunk_overlap)"
    by (auto simp: chunk_documents_def split_documents_def image_iff)
  then show ?thesis by (rule rev_bexI) simp
qed

section \<open>The index at start-up\<close>

text \<open>
  Claim C3, as amended: when an index is persisted at the storage path, it is loaded and
  returned. When nothing is at the storage path and the base folder is missing or empty,
  the folder is created if need be and the result is \<open>None\<close>. When nothing is at the
  storage path and the base folder has entries, the folder is loaded: if that yields no
  Document Record the result is \<open>None\<close> and nothing is persisted; if it yields records
  and they yield chunks, the index built from the chunks is persisted at the storage path
  and returned.
\<close>

theorem create_or_load_vector_store_cases:
  "(fs VECTOR_STORE_PATH = Some (SavedIndex db) \<longrightarrow>
      create_or_load_vector_store sv fs = (fs, Inr (Some db))) \<and>
   (fs VECTOR_STORE_PATH = None \<and> (fs BASE_DOCS_FOLDER = None \<or> fs BASE_DOCS_FOLDER = Some (Folder [])) \<longrightarrow>
      create_or_load_vector_store sv fs = (fs(BASE_DOCS_FOLDER \<mapsto> Folder []), Inr None)) \<and>
   (fs VECTOR_STORE_PATH = None \<and> fs BASE_DOCS_FOLDER = Some (Folder names) \<and> names \<noteq> [] \<and>
    load_documents sv fs BASE_DOCS_FOLDER = Inr docs \<longrightarrow>
      (docs = [] \<longrightarrow> create_or_load_vector_store sv fs = (fs, Inr None)) \<and>
      (docs \<noteq> [] \<and> chunk_documents sv docs 500 50 \<noteq> [] \<longrightarrow>
         create_or_load_vector_store sv fs =
           (fs(VECTOR_STORE_PATH \<mapsto> SavedIndex (map (index_entry sv) (chunk_documents sv docs 500 50))),
            Inr (Some (map (index_entry sv) (chunk_documents sv docs 500 50))))))"
proof (intro conjI impI)
  assume "fs VECTOR_STORE_PATH = Some (SavedIndex db)"
  then show "create_or_load_vector_store sv fs = (fs, Inr (Some db))"
    by (simp add: create_or_load_vector_store_def os_path_exists_def FAISS_load_local_def)
next
  assume a: "fs VECTOR_STORE_PATH = None \<and> (fs BASE_DOCS_FOLDER = None \<or> fs BASE_DOCS_FOLDER = Some (Folder []))"
  then have "fs(BASE_DOCS_FOLDER \<mapsto> Folder []) = fs \<or> fs BASE_DOCS_FOLDER = None" by auto
  with a show "create_or_load_vector_store sv fs = (fs(BASE_DOCS_FOLDER \<mapsto> Folder []), Inr None)"
    by (auto simp: create_or_load_vector_store_def os_path_exists_def os_listdir_def os_makedirs_def)
next
  assume "fs VECTOR_STORE_PATH = None \<and> fs BASE_DOCS_FOLDER = Some (Folder names) \<and> names \<noteq> [] \<and>
    load_documents sv fs BASE_DOCS_FOLDER = Inr docs" and "docs = []"
  then show "create_or_load_vector_store sv fs = (fs, Inr None)"
    by (simp add: create_or_load_vector_store_def os_path_exists_def os_listdir_def)
next
  assume "fs VECTOR_STORE_PATH = None \<and> fs BASE_DOCS_FOLDER = Some (Folder names) \<and> names \<noteq> [] \<and>
    load_documents sv fs BASE_DOCS_FOLDER = Inr docs"
    and "docs \<noteq> [] \<and> chunk_documents sv docs 500 50 \<noteq> []"
  then show "create_or_load_vector_store sv fs =
           (fs(VECTOR_STORE_PATH \<mapsto> SavedIndex (map (index_entry sv) (chunk_documents sv docs 500 50))),
            Inr (Some (map (index_entry sv) (chunk_documents sv docs 500 50))))"
    by (simp add: create_or_load_vector_store_def os_path_exists_def os_listdir_def
        FAISS_from_documents_def save_local_def Let_def)
qed

lemma example_filesystems:
  "fs_saved VECTOR_STORE_PATH = Some (SavedIndex lease_store)"
  "fs_notes VECTOR_STORE_PATH = None"
  "fs_notes BASE_DOCS_FOLDER = Some (Folder [notes_txt])"
  "fs_base VECTOR_STORE_PATH = None"
  "fs_base BASE_DOCS_FOLDER = Some (Folder [notes_txt, lease_pdf])"
  by (simp_all add: fs_saved_def fs_notes_def fs_base_def paths_distinct)

theorem create_or_load_vector_store_cases_witness:
  "create_or_load_vector_store example_services fs_saved = (fs_saved, Inr (Some lease_store)) \<and>
   create_or_load_vector_store example_services Map.empty = ([BASE_DOCS_FOLDER \<mapsto> Folder []], Inr None) \<and>
   create_or_load_vector_store example_services fs_notes = (fs_notes, Inr None) \<and>
   create_or_load_vector_store example_services fs_base =
     (fs_base(VECTOR_STORE_PATH \<mapsto> SavedIndex lease_store), Inr (Some lease_store))"
proof -
  have 1: "create_or_load_vector_store example_services fs_saved = (fs_saved, Inr (Some lease_store))"
    using create_or_load_vector_store_cases [of fs_saved lease_store example_services]
    by (simp add: example_filesystems)
  have 2: "create_or_load_vector_store example_services Map.empty = ([BASE_DOCS_FOLDER \<mapsto> Folder []], Inr None)"
    using create_or_load_vector_store_cases [of Map.empty _ example_services]
    by simp
  have 3: "create_or_load_vector_store example_services fs_notes = (fs_notes, Inr None)"
    using create_or_load_vector_store_cases [of fs_notes _ example_services "[notes_txt]" "[]"]
    by (simp add: example_filesystems example_load_documents)
  have 4: "create_or_load_vector_store example_services fs_base =
     (fs_base(VECTOR_STORE_PATH \<mapsto> SavedIndex lease_store), Inr (Some lease_store))"
    using create_or_load_vector_store_cases
      [of fs_base _ example_services "[notes_txt, lease_pdf]" "[lease_page_0, lease_page_1]"]
    by (simp add: example_filesystems example_load_documents example_chunks_lease lease_store_def)
  from 1 2 3 4 show ?thesis by simp
qed

text \<open>
  The claim as it stands fails on a base folder that holds only a file of another type:
  the folder exists and has an entry, nothing is persisted at the storage path, and the
  result is \<open>None\<close> with the file system unchanged, not a freshly built index.
\<close>

theorem create_or_load_vector_store_unsupported_only:
  "\<not> os_path_exists fs_notes VECTOR_STORE_PATH \<and>
   os_path_exists fs_notes BASE_DOCS_FOLDER \<and>
   os_listdir fs_notes BASE_DOCS_FOLDER = Inr [notes_txt] \<and>
   create_or_load_vector_store example_services fs_notes = (fs_notes, Inr None)"
  by (simp add: create_or_load_vector_store_def os_path_exists_def example_filesystems
      example_listdir example_load_documents)

section \<open>Answering a query\<close>

lemma relevant_docs_filter:
  "[doc. (doc, score) \<leftarrow> rs, float_lt score t] = map fst (filter (\<lambda>p. float_lt (snd p) t) rs)"
  by (induction rs) auto

lemma threshold_not_below_itself: "\<not> float_lt RELEVANCE_THRESHOLD RELEVANCE_THRESHOLD"
  by (simp add: RELEVANCE_THRESHOLD_def)

lemma example_scores:
  "float_lt (Finite (1 / 2)) RELEVANCE_THRESHOLD"
  "float_lt (Finite (3 / 5)) RELEVANCE_THRESHOLD"
  "\<not> float_lt (Finite (9 / 10)) RELEVANCE_THRESHOLD"
  by (simp_all add: RELEVANCE_THRESHOLD_def)

lemma example_queries_differ: "rent_query \<noteq> sky_query"
  by (simp add: rent_query_def sky_query_def)

lemma example_searches:
  "similarity_search_with_relevance_scores example_services lease_store sky_query 4 =
     Inr [(lease_chunk_1, Finite (9 / 10)), (lease_chunk_0, RELEVANCE_THRESHOLD)]"
  "similarity_search_with_relevance_scores example_services merged_store rent_query 4 =
     Inr [(lease_chunk_0, Finite (1 / 2)), (lease_chunk_1, RELEVANCE_THRESHOLD),
          (addendum_chunk, Finite (3 / 5))]"
  by (simp_all add: example_services_def example_search_def example_queries_differ)

lemma example_llm: "llm_invoke example_services prompt_text = Inr (str ''monthly'')"
  by (simp add: example_services_def)

lemma example_get_answer:
  "get_answer example_services merged_store rent_query 4 =
     (Inr (str ''monthly'', [lease_chunk_0, addendum_chunk]),
      [prompt_format
         (join [NEWLINE, NEWLINE] [page_content lease_chunk_0, page_content addendum_chunk])
         rent_query])"
  unfolding get_answer_def example_searches
  by (simp add: relevant_docs_filter example_scores threshold_not_below_itself example_llm)

text \<open>
  Claim C1: the answer operation keeps exactly the retrieved pairs whose score is
  strictly below the relevance threshold. Whenever it returns an answer with citations,
  the citations are the chunks of those pairs in the order of the search, and a pair
  whose score equals the threshold contributes nothing: the citations are those of the
  pairs before it followed by those of the pairs after it.
\<close>

theorem get_answer_keeps_scores_below_threshold:
  assumes "similarity_search_with_relevance_scores sv db query k = Inr retrieved"
    and "get_answer sv db query k = (Inr (answer, cited), prompts)"
  shows "cited = map fst (filter (\<lambda>p. float_lt (snd p) RELEVANCE_THRESHOLD) retrieved) \<and>
         (\<forall>pre doc post. retrieved = pre @ (doc, RELEVANCE_THRESHOLD) # post \<longrightarrow>
            cited = map fst (filter (\<lambda>p. float_lt (snd p) RELEVANCE_THRESHOLD) pre) @
                    map fst (filter (\<lambda>p. float_lt (snd p) RELEVANCE_THRESHOLD) post))"
proof -
  let ?kept = "map fst (filter (\<lambda>p. float_lt (snd p) RELEVANCE_THRESHOLD) retrieved)"
  have c: "cited = ?kept"
    using assms
    by (auto simp: get_answer_def relevant_docs_filter Let_def split: if_splits sum.splits)
  moreover have "?kept = map fst (filter (\<lambda>p. float_lt (snd p) RELEVANCE_THRESHOLD) pre) @
                    map fst (filter (\<lambda>p. float_lt (snd p) RELEVANCE_THRESHOLD) post)"
    if "retrieved = pre @ (doc, RELEVANCE_THRESHOLD) # post" for pre doc post
    using that by (simp add: threshold_not_below_itself)
  ultimately show ?thesis by simp
qed

theorem get_answer_keeps_scores_below_threshold_witness:
  "similarity_search_with_relevance_scores example_services merged_store rent_query 4 =
     Inr [(lease_chunk_0, Finite (1 / 2)), (lease_chunk_1, RELEVANCE_THRESHOLD),
          (addendum_chunk, Finite (3 / 5))] \<and>
   fst (get_answer example_services merged_store rent_query 4) =
     Inr (str ''monthly'', [lease_chunk_0, addendum_chunk]) \<and>
   [lease_chunk_0, addendum_chunk] =
     map fst (filter (\<lambda>p. float_lt (snd p) RELEVANCE_THRESHOLD) [(lease_chunk_0, Finite (1 / 2))]) @
     map fst (filter (\<lambda>p. float_lt (snd p) RELEVANCE_THRESHOLD) [(addendum_chunk, Finite (3 / 5))])"
proof -
  note s = example_searches(2)
  note g = example_get_answer
  have cut: "[(lease_chunk_0, Finite (1 / 2)), (lease_chunk_1, RELEVANCE_THRESHOLD),
          (addendum_chunk, Finite (3 / 5))] =
      [(lease_chunk_0, Finite (1 / 2))] @ (lease_chunk_1, RELEVANCE_THRESHOLD) #
      [(addendum_chunk, Finite (3 / 5))]"
    by simp
  have "[lease_chunk_0, addendum_chunk] =
     map fst (filter (\<lambda>p. float_lt (snd p) RELEVANCE_THRESHOLD) [(lease_chunk_0, Finite (1 / 2))]) @
     map fst (filter (\<lambda>p. float_lt (snd p) RELEVANCE_THRESHOLD) [(addendum_chunk, Finite (3 / 5))])"
    using get_answer_keeps_scores_below_threshold [OF s g] cut by blast
  with s g show ?thesis by simp
qed



text \<open>
  The prompt carries its context verbatim, in the slot between the line
  \<open>Context from documents:\<close> and the question, and two prompts for the same question
  are equal only when their contexts are.
\<close>

lemma prompt_format_context_inject:
  "prompt_format c query = prompt_format c' query \<Longrightarrow> c = c'"
  by (simp add: prompt_format_def)

lemma prompt_format_slots:
  "\<exists>head. prompt_format c query =
     head @ str ''Context from documents:'' @ [NEWLINE] @ c @ [NEWLINE, NEWLINE]
          @ str ''Question:'' @ [NEWLINE] @ query @ [NEWLINE, NEWLINE]
          @ str ''Answer:'' @ [NEWLINE]"
  unfolding prompt_format_def append_assoc [symmetric]
  by (intro exI) (rule refl)

text \<open>
  Claim C6: when at least one chunk survives the filter, the language model is called
  once, and the context it receives is the text of the first surviving chunk followed,
  for each further surviving chunk in the order of the search, by one blank line (two
  newline characters) and the chunk's text. The prompt sent to the model holds this
  context verbatim in the template's context slot, and no other context gives the same
  prompt.
\<close>

theorem get_answer_context:
  assumes "similarity_search_with_relevance_scores sv db query k = Inr retrieved"
    and "map fst (filter (\<lambda>p. float_lt (snd p) RELEVANCE_THRESHOLD) retrieved) = first # others"
    and "context_text =
           page_content first @ concat (map (\<lambda>doc. [NEWLINE, NEWLINE] @ page_content doc) others)"
  shows "\<exists>prompt_text.
           snd (get_answer sv db query k) = [prompt_text] \<and>
           prompt_text = prompt_format context_text query \<and>
           (\<exists>head. prompt_text =
              head @ str ''Context from documents:'' @ [NEWLINE] @ context_text @ [NEWLINE, NEWLINE]
                   @ str ''Question:'' @ [NEWLINE] @ query @ [NEWLINE, NEWLINE]
                   @ str ''Answer:'' @ [NEWLINE]) \<and>
           (\<forall>c. prompt_format c query = prompt_text \<longrightarrow> c = context_text)"
proof -
  have "snd (get_answer sv db query k) = [prompt_format context_text query]"
    using assms
    by (simp add: get_answer_def relevant_docs_filter join_Cons Let_def comp_def split: sum.splits)
  moreover have "\<forall>c. prompt_format c query = prompt_format context_text query \<longrightarrow> c = context_text"
    by (blast dest: prompt_format_context_inject)
  ultimately show ?thesis
    using prompt_format_slots [of context_text query] by blast
qed

theorem get_answer_context_witness:
  "map fst (filter (\<lambda>p. float_lt (snd p) RELEVANCE_THRESHOLD)
      [(lease_chunk_0, Finite (1 / 2)), (lease_chunk_1, RELEVANCE_THRESHOLD),
       (addendum_chunk, Finite (3 / 5))]) = [lease_chunk_0, addendum_chunk] \<and>
   snd (get_answer example_services merged_store rent_query 4) =
     [prompt_format
        (page_content lease_chunk_0 @ [NEWLINE, NEWLINE] @ page_content addendum_chunk)
        rent_query] \<and>
   prompt_format (page_content lease_chunk_0) rent_query \<noteq>
     prompt_format
        (page_content lease_chunk_0 @ [NEWLINE, NEWLINE] @ page_content addendum_chunk)
        rent_query"
proof -
  let ?ctx = "page_content lease_chunk_0 @ [NEWLINE, NEWLINE] @ page_content addendum_chunk"
  note s = example_searches(2)
  have f: "map fst (filter (\<lambda>p. float_lt (snd p) RELEVANCE_THRESHOLD)
      [(lease_chunk_0, Finite (1 / 2)), (lease_chunk_1, RELEVANCE_THRESHOLD),
       (addendum_chunk, Finite (3 / 5))]) = [lease_chunk_0, addendum_chunk]"
    by (simp add: example_scores threshold_not_below_itself)
  have c: "?ctx = page_content lease_chunk_0 @
      concat (map (\<lambda>doc. [NEWLINE, NEWLINE] @ page_content doc) [addendum_chunk])"
    by simp
  from get_answer_context [OF s f c]
  obtain prompt_text where p: "snd (get_answer example_services merged_store rent_query 4) = [prompt_text]"
    and e: "prompt_text = prompt_format ?ctx rent_query"
    and i: "\<forall>c. prompt_format c rent_query = prompt_text \<longrightarrow> c = ?ctx"
    by blast
  have "page_content lease_chunk_0 \<noteq> ?ctx" by simp
  with i e have "prompt_format (page_content lease_chunk_0) rent_query \<noteq> prompt_format ?ctx rent_query"
    by blast
  with f p e show ?thesis by simp
qed

section \<open>The listing of indexed documents\<close>

lemma set_get_indexed_documents:
  "set (get_indexed_documents (Some store)) =
     (\<lambda>doc. os_path_basename (metadata_get_source doc)) ` set (docstore_values store)"
  by (auto simp: get_indexed_documents_def Let_def)

lemma sorted_get_indexed_documents: "sorted (get_indexed_documents db)"
  by (simp add: get_indexed_documents_def Let_def split: option.splits)

text \<open>
  Claim C8 asks for a sorted listing without duplicate file names. The listing is sorted,
  but the sources are made distinct as full paths and only then cut down to base names:
  an index holding \<open>documents/lease.pdf\<close> and \<open>uploaded_docs/lease.pdf\<close> is listed as
  \<open>lease.pdf\<close> twice.
\<close>

theorem get_indexed_documents_repeats_name:
  "map metadata_get_source (docstore_values same_name_store) = [base_lease_path, uploaded_lease_path] \<and>
   get_indexed_documents (Some same_name_store) = [lease_pdf, lease_pdf] \<and>
   \<not> distinct (get_indexed_documents (Some same_name_store))"
  by (simp add: example_listings example_docstores example_sources)

section \<open>Merging uploaded documents\<close>

lemma merge_new_documents_db:
  assumes "load_documents sv fs UPLOADED_DOCS_FOLDER = Inr new_docs"
  shows "fst (snd (merge_new_documents sv fs (Some store))) =
           Some (add_documents sv store (chunk_documents sv new_docs 500 50))"
proof (cases "new_docs = []")
  case True
  then have "chunk_documents sv new_docs 500 50 = []"
    by (simp add: chunk_documents_def split_documents_def)
  with True assms show ?thesis
    by (simp add: merge_new_documents_def add_documents_def)
next
  case False
  with assms show ?thesis
    by (simp add: merge_new_documents_def Let_def split: sum.splits)
qed

text \<open>
  Claim C4, as amended: merging the documents of the upload folder into an index of n
  entries, when they yield m chunks (at least one chunk, or no Document Record at all),
  appends the m chunks' entries to the n old ones. Nothing is deduplicated: the index has
  n + m entries, and every document is in it as often as it was before plus as often as
  it is among the new chunks. The listing of indexed sources holds exactly the file names
  of the old entries and of the new chunks: the file name of every new Document Record
  that yields at least one chunk is listed, and the file name of a new Document Record is
  not listed when it is neither the name of an old entry nor the name of a new chunk.
\<close>

theorem merge_new_documents_adds_chunks:
  assumes "load_documents sv fs UPLOADED_DOCS_FOLDER = Inr new_docs"
    and "new_chunks = chunk_documents sv new_docs 500 50"
    and "new_docs = [] \<or> new_chunks \<noteq> []"
    and "fst (snd (merge_new_documents sv fs (Some store))) = merged"
  shows "\<exists>store'. merged = Some store' \<and>
           store' = store @ map (index_entry sv) new_chunks \<and>
           length store' = length store + length new_chunks \<and>
           (\<forall>c. count_list (docstore_values store') c =
                  count_list (docstore_values store) c + count_list new_chunks c) \<and>
           set (get_indexed_documents (Some store')) =
             set (get_indexed_documents (Some store)) \<union>
             (\<lambda>c. os_path_basename (metadata_get_source c)) ` set new_chunks \<and>
           (\<forall>d \<in> set new_docs. split_text sv 500 50 (page_content d) \<noteq> [] \<longrightarrow>
              os_path_basename (metadata_get_source d) \<in> set (get_indexed_documents (Some store'))) \<and>
           (\<forall>d \<in> set new_docs.
              os_path_basename (metadata_get_source d) \<notin> set (get_indexed_documents (Some store)) \<and>
              os_path_basename (metadata_get_source d) \<notin>
                (\<lambda>c. os_path_basename (metadata_get_source c)) ` set new_chunks \<longrightarrow>
              os_path_basename (metadata_get_source d) \<notin> set (get_indexed_documents (Some store')))"
proof -
  let ?s = "store @ map (index_entry sv) new_chunks"
  have m: "merged = Some ?s"
    using merge_new_documents_db [OF assms(1), of store] assms(2,4)
    by (simp add: add_documents_def)
  have v: "docstore_values ?s = docstore_values store @ new_chunks"
    by (simp add: docstore_values_def index_entry_def comp_def)
  have l: "set (get_indexed_documents (Some ?s)) =
             set (get_indexed_documents (Some store)) \<union>
             (\<lambda>c. os_path_basename (metadata_get_source c)) ` set new_chunks"
    by (simp add: set_get_indexed_documents v image_Un)
  have d: "os_path_basename (metadata_get_source d) \<in> set (get_indexed_documents (Some ?s))"
    if "d \<in> set new_docs" and "split_text sv 500 50 (page_content d) \<noteq> []" for d
  proof -
    from chunk_of_document [OF that] assms(2)
    obtain c where "c \<in> set new_chunks" and "metadata c = metadata d" by auto
    then have "os_path_basename (metadata_get_source d) \<in>
        (\<lambda>c. os_path_basename (metadata_get_source c)) ` set new_chunks"
      by (intro image_eqI [of _ _ c]) (simp_all add: metadata_get_source_def)
    with l show ?thesis by simp
  qed
  have n: "os_path_basename (metadata_get_source d) \<notin> set (get_indexed_documents (Some ?s))"
    if "os_path_basename (metadata_get_source d) \<notin> set (get_indexed_documents (Some store))"
      and "os_path_basename (metadata_get_source d) \<notin>
                (\<lambda>c. os_path_basename (metadata_get_source c)) ` set new_chunks" for d
    using that l by simp
  from m v l d n show ?thesis by simp
qed

theorem merge_new_documents_adds_chunks_witness:
  "load_documents example_services fs_upload UPLOADED_DOCS_FOLDER = Inr [addendum, scan_page] \<and>
   chunk_documents example_services [addendum, scan_page] 500 50 = [addendum_chunk] \<and>
   fst (snd (merge_new_documents example_services fs_upload (Some lease_store))) = Some merged_store \<and>
   length merged_store = length lease_store + length [addendum_chunk] \<and>
   split_text example_services 500 50 (page_content addendum) \<noteq> [] \<and>
   os_path_basename (metadata_get_source addendum) \<in> set (get_indexed_documents (Some merged_store)) \<and>
   os_path_basename (metadata_get_source scan_page) \<notin> set (get_indexed_documents (Some lease_store)) \<and>
   os_path_basename (metadata_get_source scan_page) \<notin> set (get_indexed_documents (Some merged_store))"
proof -
  note l = example_load_documents(3)
  note c = example_chunks_upload
  have ne: "[addendum, scan_page] = [] \<or> [addendum_chunk] \<noteq> []" by simp
  from merge_new_documents_adds_chunks [OF l c [symmetric] ne refl, of lease_store]
  obtain store' where m: "fst (snd (merge_new_documents example_services fs_upload (Some lease_store))) = Some store'"
    and s: "store' = lease_store @ map (index_entry example_services) [addendum_chunk]"
    and n: "length store' = length lease_store + length [addendum_chunk]"
    and d: "\<forall>d \<in> set [addendum, scan_page].
              split_text example_services 500 50 (page_content d) \<noteq> [] \<longrightarrow>
              os_path_basename (metadata_get_source d) \<in> set (get_indexed_documents (Some store'))"
    and u: "\<forall>d \<in> set [addendum, scan_page].
              os_path_basename (metadata_get_source d) \<notin> set (get_indexed_documents (Some lease_store)) \<and>
              os_path_basename (metadata_get_source d) \<notin>
                (\<lambda>c. os_path_basename (metadata_get_source c)) ` set [addendum_chunk] \<longrightarrow>
              os_path_basename (metadata_get_source d) \<notin> set (get_indexed_documents (Some store'))"
    by blast
  from s have e: "store' = merged_store" by (simp add: merged_store_def)
  have p: "split_text example_services 500 50 (page_content addendum) \<noteq> []"
    by (simp add: example_split_text)
  with d have a: "os_path_basename (metadata_get_source addendum) \<in> set (get_indexed_documents (Some store'))"
    by simp
  have o: "os_path_basename (metadata_get_source scan_page) \<notin> set (get_indexed_documents (Some lease_store))"
    by (simp add: example_listings example_sources example_basenames example_names_order)
  have k: "os_path_basename (metadata_get_source scan_page) \<notin>
      (\<lambda>c. os_path_basename (metadata_get_source c)) ` set [addendum_chunk]"
    by (simp add: example_sources example_basenames example_names_order)
  from u o k have x: "os_path_basename (metadata_get_source scan_page) \<notin> set (get_indexed_documents (Some store'))"
    by simp
  from l c m n p e a o x show ?thesis by simp
qed

text \<open>
  The claim as it stands fails on the example upload: the scanned page has no text and
  yields no chunk, so after the merge the index has its two old entries and the
  addendum's, and the listing names the lease and the addendum but not \<open>scan.pdf\<close>, the
  source of one of the new documents.
\<close>

theorem merge_new_documents_unlisted_document:
  "load_documents example_services fs_upload UPLOADED_DOCS_FOLDER = Inr [addendum, scan_page] \<and>
   os_path_basename (metadata_get_source scan_page) = scan_pdf \<and>
   fst (snd (merge_new_documents example_services fs_upload (Some lease_store))) = Some merged_store \<and>
   get_indexed_documents (Some merged_store) = [addendum_docx, lease_pdf] \<and>
   scan_pdf \<notin> set (get_indexed_documents (Some merged_store))"
  by (simp add: example_load_documents merge_new_documents_db example_chunks_upload
      add_documents_def merged_store_def [symmetric] example_listings example_sources
      example_basenames example_names_order)

end
